theory Spec2Isabelle
  imports Complex_Main "HOL-Library.AList" "HOL-Library.List_Lexorder" "HOL-Library.Char_ord"
begin

section \<open>Schema inference of tap-redash\<close>

text \<open>
  The tap reads the result rows of a Redash query and describes them by a JSON schema
  inferred from a sample: \<^verbatim>\<open>_singer_type_for_value\<close> types one value,
  \<^verbatim>\<open>_merge_schemas\<close> merges the schemas seen for one field, \<^verbatim>\<open>_infer_properties\<close>
  drives both over the first rows, and \<^verbatim>\<open>generate_stream_entry\<close> names the stream
  (all in \<^verbatim>\<open>tap_redash.py\<close>). This theory embeds these functions and proves properties
  of them.
\<close>

subsection \<open>Data model\<close>

text \<open>
  The rows handed to the schema inference are parsed JSON: Python values built from
  \<^verbatim>\<open>None\<close>, \<^verbatim>\<open>bool\<close>, \<^verbatim>\<open>int\<close>, \<^verbatim>\<open>float\<close>, \<^verbatim>\<open>str\<close>, \<^verbatim>\<open>dict\<close> and \<^verbatim>\<open>list\<close>.
  \<open>VOther\<close> stands for a value of any other Python type, which the type test chain of
  \<^verbatim>\<open>_singer_type_for_value\<close> lets fall through to its last line.

  A Python \<^verbatim>\<open>dict\<close> is an association list in insertion order: \<open>map_of d k\<close> is the
  lookup \<^verbatim>\<open>d.get(k)\<close>, \<open>AList.update k v d\<close> is the assignment \<^verbatim>\<open>d[k] = v\<close> (an
  existing key keeps its position, a new key goes to the end), and the list itself is
  \<^verbatim>\<open>d.items()\<close>. The keys of a Python dict are distinct; a dict that the program
  builds is built by such assignments, so its keys are distinct too (\<open>wf_schema\<close> below).
\<close>

datatype val =
    VNone
  | VBool bool
  | VInt int
  | VFloat real
  | VStr string
  | VDict "(string \<times> val) list"
  | VList "val list"
  | VOther

text \<open>
  A schema is the dict that the program builds, with the keys \<^verbatim>\<open>"type"\<close> (always
  present; a single tag in a schema made by \<^verbatim>\<open>_singer_type_for_value\<close>, a list of tags
  in one made by \<^verbatim>\<open>_merge_schemas\<close>), \<^verbatim>\<open>"properties"\<close>, \<^verbatim>\<open>"items"\<close> and
  \<^verbatim>\<open>"additionalProperties"\<close> (each present or absent).
\<close>

datatype stype = TStr string | TList "string list"

datatype schema =
  Schema (stype: stype)
         (properties: "(string \<times> schema) list option")
         (items: "schema option")
         (additionalProperties: "bool option")

definition leaf :: "string \<Rightarrow> schema" where
  "leaf t = Schema (TStr t) None None None"

subsection \<open>Value typer\<close>

text \<open>
  \<^verbatim>\<open>Redash._singer_type_for_value\<close>: the schema of one value, no merging. The dict
  comprehension over \<^verbatim>\<open>value.items()\<close> stores one entry per pair, in the order of the
  pairs.
\<close>

fun singer_type_for_value :: "val \<Rightarrow> schema" where
  "singer_type_for_value VNone = leaf ''null''"
| "singer_type_for_value (VBool b) = leaf ''boolean''"
| "singer_type_for_value (VInt i) = leaf ''integer''"
| "singer_type_for_value (VFloat f) = leaf ''number''"
| "singer_type_for_value (VStr s) = leaf ''string''"
| "singer_type_for_value (VDict kvs) =
     Schema (TStr ''object'')
       (Some (fold (\<lambda>(k, v). AList.update k (singer_type_for_value v)) kvs []))
       None (Some False)"
| "singer_type_for_value (VList []) = leaf ''array''"
| "singer_type_for_value (VList (x # xs)) =
     (let items_schema =
        (if x = VNone then Schema (TStr ''array'') None (Some (leaf ''string'')) None
         else singer_type_for_value x)
      in Schema (TStr ''array'') None (Some items_schema) None)"
| "singer_type_for_value VOther = leaf ''string''"

subsection \<open>Schema merger\<close>

text \<open>
  The first loop of \<^verbatim>\<open>_merge_schemas\<close>: a list-valued \<^verbatim>\<open>"type"\<close> is spliced in, a
  single tag is appended; then \<^verbatim>\<open>"null"\<close> is appended.
\<close>

fun type_tags :: "stype \<Rightarrow> string list" where
  "type_tags (TList ts) = ts"
| "type_tags (TStr t) = [t]"

definition collect_types :: "schema list \<Rightarrow> string list" where
  "collect_types schemas = concat (map (\<lambda>s. type_tags (stype s)) schemas) @ [''null'']"

text \<open>
  \<^verbatim>\<open>Redash._merge_schemas\<close>. \<open>merge_object_properties\<close> is the loop
  \<^verbatim>\<open>for s in schemas\<close> over the inputs that carry \<^verbatim>\<open>"properties"\<close>, and
  \<open>merge_property_items\<close> the loop \<^verbatim>\<open>for k, v in s["properties"].items()\<close>; both thread
  the dict \<^verbatim>\<open>merged["properties"]\<close> as \<open>acc\<close>. \<^verbatim>\<open>sorted(set(types))\<close> is
  \<open>sort (remdups types)\<close>, in the lexicographic order of strings.
\<close>

function merge_schemas :: "schema list \<Rightarrow> schema"
  and merge_object_properties ::
    "(string \<times> schema) list \<Rightarrow> schema list \<Rightarrow> (string \<times> schema) list"
  and merge_property_items ::
    "(string \<times> schema) list \<Rightarrow> (string \<times> schema) list \<Rightarrow> (string \<times> schema) list"
where
  "merge_schemas schemas =
     (let types = collect_types schemas in
      Schema (TList (sort (remdups types)))
        (if ''object'' \<in> set types then Some (merge_object_properties [] schemas) else None)
        (if ''array'' \<in> set types then
           (let item_schemas = List.map_filter items schemas in
            if item_schemas \<noteq> [] then Some (merge_schemas item_schemas) else None)
         else None)
        (if ''object'' \<in> set types then Some False else None))"
| "merge_object_properties acc [] = acc"
| "merge_object_properties acc (s # ss) =
     (case properties s of
        None \<Rightarrow> merge_object_properties acc ss
      | Some ps \<Rightarrow> merge_object_properties (merge_property_items acc ps) ss)"
| "merge_property_items acc [] = acc"
| "merge_property_items acc ((k, v) # ps) =
     (case map_of acc k of
        None \<Rightarrow> merge_property_items (AList.update k v acc) ps
      | Some old \<Rightarrow> merge_property_items (AList.update k (merge_schemas [old, v]) acc) ps)"
  by pat_completeness auto

text \<open>
  The measure of the termination proof: the number of schema nodes of a schema, of a
  properties dict, and of the properties of one input.
\<close>

primrec nodes :: "schema \<Rightarrow> nat" where
  "nodes (Schema t ps it ap) =
     Suc ((case map_option (map (map_prod id nodes)) ps of
             None \<Rightarrow> 0 | Some l \<Rightarrow> sum_list (map snd l))
        + (case map_option nodes it of None \<Rightarrow> 0 | Some n \<Rightarrow> n))"

definition nodes_dict :: "(string \<times> schema) list \<Rightarrow> nat" where
  "nodes_dict ps = sum_list (map (\<lambda>kv. nodes (snd kv)) ps)"

definition nodes_props :: "schema \<Rightarrow> nat" where
  "nodes_props s = (case properties s of None \<Rightarrow> 0 | Some ps \<Rightarrow> nodes_dict ps)"

definition props_len :: "schema \<Rightarrow> nat" where
  "props_len s = (case properties s of None \<Rightarrow> 0 | Some ps \<Rightarrow> length ps)"

subsection \<open>Sampler\<close>

text \<open>
  \<^verbatim>\<open>Redash._infer_properties\<close>. \<open>scan_row\<close> is the body of the loop over the row
  indices: a row that is not a dict is skipped, and for a dict every pair runs
  \<^verbatim>\<open>union.setdefault(k, []).append(schema)\<close> on the dict \<open>union_d\<close>. The index \<open>i\<close>
  stays below \<open>length sample_rows\<close>, so \<open>sample_rows ! i\<close> is the row
  \<^verbatim>\<open>sample_rows[i]\<close>.
\<close>

fun is_dict :: "val \<Rightarrow> bool" where
  "is_dict (VDict kvs) = True"
| "is_dict v = False"

definition append_schema ::
  "string \<times> val \<Rightarrow> (string \<times> schema list) list \<Rightarrow> (string \<times> schema list) list" where
  "append_schema kv union_d =
     (let schema = singer_type_for_value (snd kv) in
      AList.update (fst kv)
        ((case map_of union_d (fst kv) of None \<Rightarrow> [] | Some l \<Rightarrow> l) @ [schema]) union_d)"

fun scan_row :: "val \<Rightarrow> (string \<times> schema list) list \<Rightarrow> (string \<times> schema list) list" where
  "scan_row (VDict kvs) union_d = fold append_schema kvs union_d"
| "scan_row row union_d = union_d"

definition infer_properties :: "val list \<Rightarrow> (string \<times> schema) list" where
  "infer_properties sample_rows =
     (let MAX_SCAN = min 100 (length sample_rows);
          union_d = fold (\<lambda>i. scan_row (sample_rows ! i)) [0..<MAX_SCAN] []
      in map (\<lambda>(k, schemas). (k, merge_schemas schemas)) union_d)"

subsection \<open>Stream names\<close>

text \<open>
  The stream name computed at the head of \<^verbatim>\<open>Redash.generate_stream_entry\<close>. A query
  is the dict of the Redash API: its \<^verbatim>\<open>id\<close> is an integer, its \<^verbatim>\<open>name\<close> a string
  or missing (on a query without \<^verbatim>\<open>id\<close>, or with a name that is not a string, the
  function raises and no stream entry is made).

  A Python string is a sequence of Unicode code points, here a list of natural numbers;
  \<open>ord\<close> is the code point of an ASCII character and \<open>str_int\<close> is Python's \<^verbatim>\<open>str\<close> on
  an \<^verbatim>\<open>int\<close>. \<^verbatim>\<open>str.isalnum\<close> (on one character) and \<^verbatim>\<open>str.lower\<close> (on a string)
  read the Unicode tables of the Python runtime, which are not part of the program:
  they are the parameters \<open>isalnum\<close> and \<open>lower\<close> of the functions below.
\<close>

record query =
  qid :: int
  qname :: "nat list option"

definition ord :: "char \<Rightarrow> nat" where
  "ord c = of_char c"

fun str_nat :: "nat \<Rightarrow> nat list" where
  "str_nat n =
     (if n < 10 then [ord CHR ''0'' + n] else str_nat (n div 10) @ [ord CHR ''0'' + n mod 10])"

definition str_int :: "int \<Rightarrow> nat list" where
  "str_int i = (if i < 0 then ord CHR ''-'' # str_nat (nat (- i)) else str_nat (nat i))"

definition replace_char :: "nat \<Rightarrow> nat \<Rightarrow> nat list \<Rightarrow> nat list" where
  "replace_char a b s = map (\<lambda>c. if c = a then b else c) s"

definition sanitize :: "(nat \<Rightarrow> bool) \<Rightarrow> (nat list \<Rightarrow> nat list) \<Rightarrow> nat list \<Rightarrow> nat list" where
  "sanitize isalnum lower query_name =
     (let stream_name =
            replace_char (ord CHR ''-'') (ord CHR ''_'')
              (replace_char (ord CHR '' '') (ord CHR ''_'') query_name);
          stream_name = filter (\<lambda>c. isalnum c \<or> c = ord CHR ''_'') stream_name
      in lower stream_name)"

definition stream_name :: "(nat \<Rightarrow> bool) \<Rightarrow> (nat list \<Rightarrow> nat list) \<Rightarrow> query \<Rightarrow> nat list" where
  "stream_name isalnum lower query =
     (let query_id = str_int (qid query);
          query_name =
            (case qname query of None \<Rightarrow> map ord ''query_'' @ query_id | Some n \<Rightarrow> n);
          stream_name = sanitize isalnum lower query_name
      in if stream_name = [] then map ord ''query_'' @ query_id else stream_name)"

section \<open>Notions used to state the properties\<close>

text \<open>
  A character allowed in a stream name: an alphanumeric character that is lowercase (its
  own lowercase form), or an underscore.
\<close>

definition name_char :: "(nat \<Rightarrow> bool) \<Rightarrow> (nat list \<Rightarrow> nat list) \<Rightarrow> nat \<Rightarrow> bool" where
  "name_char isalnum lower c = ((isalnum c \<and> lower [c] = [c]) \<or> c = ord CHR ''_'')"

text \<open>
  An excerpt of the Unicode tables, for the characters of the example below: the
  lowercase ASCII letters and U+0130 (304, the capital I with a dot above) are
  alphanumeric, U+0307 (775, the combining dot above) is not; lowercasing maps U+0130 to
  the two code points \<^verbatim>\<open>i\<close>, U+0307 and leaves the lowercase letters as they are.
\<close>

definition excerpt_isalnum :: "nat \<Rightarrow> bool" where
  "excerpt_isalnum c = (c = 304 \<or> (ord CHR ''a'' \<le> c \<and> c \<le> ord CHR ''z''))"

definition excerpt_lower :: "nat list \<Rightarrow> nat list" where
  "excerpt_lower s = concat (map (\<lambda>c. if c = 304 then [ord CHR ''i'', 775] else [c]) s)"

text \<open>
  A schema as the program builds it: the keys are distinct, \<^verbatim>\<open>"properties"\<close> and
  \<^verbatim>\<open>"additionalProperties": False\<close> are present exactly when \<^verbatim>\<open>object\<close> is among the
  type tags, and \<^verbatim>\<open>"items"\<close> only when \<^verbatim>\<open>array\<close> is; the same holds inside.
\<close>

fun wf_schema :: "schema \<Rightarrow> bool" where
  "wf_schema (Schema t ps it ap) =
     ((case ps of None \<Rightarrow> ''object'' \<notin> set (type_tags t)
       | Some l \<Rightarrow> ''object'' \<in> set (type_tags t) \<and> distinct (map fst l)
                  \<and> (\<forall>kv \<in> set l. wf_schema (snd kv)))
      \<and> (case it of None \<Rightarrow> True | Some i \<Rightarrow> ''array'' \<in> set (type_tags t) \<and> wf_schema i)
      \<and> ap = (if ''object'' \<in> set (type_tags t) then Some False else None))"

definition wf_dict :: "(string \<times> schema) list \<Rightarrow> bool" where
  "wf_dict ps = (distinct (map fst ps) \<and> (\<forall>kv \<in> set ps. wf_schema (snd kv)))"

text \<open>
  Equality of schemas as Python's \<^verbatim>\<open>==\<close> on dicts decides it: the order of the keys of a
  dict does not count. \<open>abs_schema\<close> maps a schema to the value it denotes, with every
  properties dict read as a mapping from names to schemas; two schemas are equal as
  Python dicts when their images are equal.
\<close>

datatype mschema =
  MSchema stype "(string \<Rightarrow> mschema option) option" "mschema option" "bool option"

primrec abs_schema :: "schema \<Rightarrow> mschema" where
  "abs_schema (Schema t ps it ap) =
     MSchema t
       (case map_option (map (map_prod id abs_schema)) ps of
          None \<Rightarrow> None | Some l \<Rightarrow> Some (map_of l))
       (map_option abs_schema it) ap"

text \<open>
  Equality up to \<^verbatim>\<open>null\<close> in the type lists: \<open>strip_null\<close> removes \<^verbatim>\<open>null\<close> from every
  list-valued \<^verbatim>\<open>"type"\<close>, at every level of the schema, and changes nothing else.
\<close>

primrec strip_null :: "schema \<Rightarrow> schema" where
  "strip_null (Schema t ps it ap) =
     Schema (case t of TStr tag \<Rightarrow> TStr tag
             | TList ts \<Rightarrow> TList (filter (\<lambda>tag. tag \<noteq> ''null'') ts))
       (map_option (map (map_prod id strip_null)) ps)
       (map_option strip_null it) ap"

text \<open>The keys of the \<^verbatim>\<open>"properties"\<close> of a schema (none when the key is absent).\<close>

definition property_names :: "schema \<Rightarrow> string set" where
  "property_names s = (case properties s of None \<Rightarrow> {} | Some ps \<Rightarrow> fst ` set ps)"

text \<open>The entry of a property name in the \<^verbatim>\<open>"properties"\<close> of a schema, if any.\<close>

definition property_of :: "schema \<Rightarrow> string \<Rightarrow> schema option" where
  "property_of s k = (case properties s of None \<Rightarrow> None | Some ps \<Rightarrow> map_of ps k)"

text \<open>The field names of a row (none for a row that is not a dict).\<close>

fun row_keys :: "val \<Rightarrow> string set" where
  "row_keys (VDict kvs) = fst ` set kvs"
| "row_keys v = {}"

section \<open>Termination of the merger\<close>

lemma nodes_dict_simps [simp]:
  "nodes_dict [] = 0"
  "nodes_dict (kv # ps) = nodes (snd kv) + nodes_dict ps"
  by (simp_all add: nodes_dict_def)

lemma nodes_Schema:
  "nodes (Schema t ps it ap) =
     Suc ((case ps of None \<Rightarrow> 0 | Some l \<Rightarrow> nodes_dict l)
        + (case it of None \<Rightarrow> 0 | Some i \<Rightarrow> nodes i))"
  by (simp add: nodes_dict_def comp_def split: option.splits)

lemma nodes_eq:
  "nodes s = Suc (nodes_props s + (case items s of None \<Rightarrow> 0 | Some i \<Rightarrow> nodes i))"
  by (cases s) (simp add: nodes_props_def nodes_Schema del: nodes.simps)

lemma sum_nodes_split:
  "sum_list (map nodes ss) =
     length ss + sum_list (map nodes_props ss) + sum_list (map nodes (List.map_filter items ss))"
proof (induction ss)
  case Nil
  show ?case by (simp add: List.map_filter_simps)
next
  case (Cons s ss)
  show ?case
    using Cons.IH nodes_eq[of s]
    by (cases "items s") (simp_all add: List.map_filter_simps del: nodes.simps)
qed

lemma nodes_dict_update_new:
  "map_of acc k = None \<Longrightarrow> nodes_dict (AList.update k x acc) = nodes_dict acc + nodes x"
  by (induction acc) (auto split: if_splits)

lemma nodes_dict_update_old:
  "map_of acc k = Some old \<Longrightarrow>
     nodes_dict (AList.update k x acc) + nodes old = nodes_dict acc + nodes x"
  by (induction acc) (auto split: if_splits)

lemma nodes_map_of_le: "map_of acc k = Some old \<Longrightarrow> nodes old \<le> nodes_dict acc"
  by (induction acc) (auto split: if_splits)

text \<open>
  The calls are nested (the dict that a loop threads holds results of earlier calls), so
  the bound on the size of a result is proved first, on the domain of the function.
\<close>

lemma merge_nodes_bound:
  "merge_schemas_merge_object_properties_merge_property_items_dom (Inl ss) \<Longrightarrow>
     ss \<noteq> [] \<longrightarrow> nodes (merge_schemas ss) \<le> sum_list (map nodes ss)"
  "merge_schemas_merge_object_properties_merge_property_items_dom (Inr (Inl (acc, ss))) \<Longrightarrow>
     nodes_dict (merge_object_properties acc ss) \<le> nodes_dict acc + sum_list (map nodes_props ss)"
  "merge_schemas_merge_object_properties_merge_property_items_dom (Inr (Inr (acc', ps))) \<Longrightarrow>
     nodes_dict (merge_property_items acc' ps) \<le> nodes_dict acc' + nodes_dict ps"
proof (induction ss and acc ss and acc' ps
    rule: merge_schemas_merge_object_properties_merge_property_items.pinduct)
  case (1 schemas)
  show ?case
  proof
    assume ne: "schemas \<noteq> []"
    let ?its = "List.map_filter items schemas"
    let ?obj = "''object'' \<in> set (collect_types schemas)"
    let ?arr = "''array'' \<in> set (collect_types schemas) \<and> ?its \<noteq> []"
    have p: "(if ?obj then nodes_dict (merge_object_properties [] schemas) else 0)
               \<le> sum_list (map nodes_props schemas)"
      using "1.IH"(1) by simp
    have q: "(if ?arr then nodes (merge_schemas ?its) else 0) \<le> sum_list (map nodes ?its)"
      using "1.IH"(2) by simp
    have "nodes (merge_schemas schemas) =
          Suc ((if ?obj then nodes_dict (merge_object_properties [] schemas) else 0)
             + (if ?arr then nodes (merge_schemas ?its) else 0))"
      by (simp add: merge_schemas.psimps[OF "1.hyps"] Let_def nodes_Schema del: nodes.simps)
    with p q have "nodes (merge_schemas schemas) \<le>
        Suc (sum_list (map nodes_props schemas) + sum_list (map nodes ?its))"
      by linarith
    also have "\<dots> \<le> sum_list (map nodes schemas)"
      using ne sum_nodes_split[of schemas] by (cases schemas) simp_all
    finally show "nodes (merge_schemas schemas) \<le> sum_list (map nodes schemas)" .
  qed
next
  case (2 acc)
  then show ?case by (simp add: merge_object_properties.psimps)
next
  case (3 acc s ss)
  then show ?case
    by (cases "properties s") (auto simp: merge_object_properties.psimps nodes_props_def)
next
  case (4 acc)
  then show ?case by (simp add: merge_property_items.psimps)
next
  case (5 acc k v ps)
  show ?case
  proof (cases "map_of acc k")
    case None
    with 5 show ?thesis
      by (simp add: merge_property_items.psimps nodes_dict_update_new)
  next
    case (Some old)
    have m: "nodes (merge_schemas [old, v]) \<le> nodes old + nodes v"
      using "5.IH"(2)[OF Some] by simp
    have "nodes_dict (merge_property_items (AList.update k (merge_schemas [old, v]) acc) ps)
          \<le> nodes_dict (AList.update k (merge_schemas [old, v]) acc) + nodes_dict ps"
      using "5.IH"(3)[OF Some] .
    moreover have "nodes_dict (AList.update k (merge_schemas [old, v]) acc) + nodes old
        = nodes_dict acc + nodes (merge_schemas [old, v])"
      by (rule nodes_dict_update_old[OF Some])
    ultimately show ?thesis
      using m Some "5.hyps" by (simp add: merge_property_items.psimps)
  qed
qed

termination merge_schemas
proof (relation "inv_image (less_than <*lex*> less_than)
    (\<lambda>x. case x of
       Inl ss \<Rightarrow> (sum_list (map nodes ss), 0::nat)
     | Inr (Inl (acc, ss)) \<Rightarrow>
         (nodes_dict acc + sum_list (map nodes_props ss),
          Suc (sum_list (map (\<lambda>s. Suc (Suc (props_len s))) ss)))
     | Inr (Inr (acc, ps)) \<Rightarrow> (nodes_dict acc + nodes_dict ps, Suc (length ps)))", goal_cases)
  case 1
  show ?case by auto
next
  case (2 schemas x)
  then have "schemas \<noteq> []" by (auto simp: collect_types_def)
  then show ?case using sum_nodes_split[of schemas] by (cases schemas) simp_all
next
  case (3 schemas x xa)
  then have "schemas \<noteq> []" by (auto simp: List.map_filter_simps)
  then show ?case using 3 sum_nodes_split[of schemas] by (cases schemas) simp_all
next
  case (4 acc s ss)
  then have "nodes_props s = 0" by (simp add: nodes_props_def)
  with 4 show ?case by (auto simp del: sum_list_eq_0_iff)
next
  case (5 acc s ss x2)
  then have "nodes_props s = nodes_dict x2" "props_len s = length x2"
    by (simp_all add: nodes_props_def props_len_def)
  with 5 show ?case by (auto simp del: sum_list_eq_0_iff)
next
  case (6 acc s ss x2)
  then have "nodes_props s = nodes_dict x2" by (simp add: nodes_props_def)
  with 6 show ?case using merge_nodes_bound(3)[OF 6(2)] by (auto simp del: sum_list_eq_0_iff)
next
  case (7 acc k v ps)
  then show ?case by (simp add: nodes_dict_update_new)
next
  case (8 acc k v ps x2)
  then show ?case using nodes_map_of_le[OF 8] by auto
next
  case (9 acc k v ps x2)
  then show ?case
    using merge_nodes_bound(1)[OF 9(2)] nodes_dict_update_old[OF 9(1), of "merge_schemas [x2, v]"]
    by auto
qed

section \<open>The sampler reads the first 100 rows\<close>

lemma fold_nth_upt:
  "n \<le> length xs \<Longrightarrow> fold (\<lambda>i. f (xs ! i)) [0..<n] acc = fold f (take n xs) acc"
proof (induction n arbitrary: acc)
  case 0
  show ?case by simp
next
  case (Suc n)
  then have "take (Suc n) xs = take n xs @ [xs ! n]"
    by (simp add: take_Suc_conv_app_nth)
  with Suc show ?case by simp
qed

lemma infer_properties_take:
  "infer_properties sample_rows =
     map (\<lambda>(k, schemas). (k, merge_schemas schemas)) (fold scan_row (take 100 sample_rows) [])"
proof -
  have "fold (\<lambda>i. scan_row (sample_rows ! i)) [0..<min 100 (length sample_rows)] []
      = fold scan_row (take (min 100 (length sample_rows)) sample_rows) []"
    by (rule fold_nth_upt) simp
  moreover have "take (min 100 (length sample_rows)) sample_rows = take 100 sample_rows"
    by (simp add: min_def)
  ultimately show ?thesis
    by (simp add: infer_properties_def Let_def)
qed

lemma scan_row_not_dict: "\<not> is_dict r \<Longrightarrow> scan_row r acc = acc"
  by (cases r) simp_all

lemma keys_append_schema: "fst ` set (append_schema kv acc) = insert (fst kv) (fst ` set acc)"
  by (simp add: append_schema_def Let_def dom_update)

lemma keys_fold_append_schema:
  "fst ` set (fold append_schema kvs acc) = fst ` set kvs \<union> fst ` set acc"
  by (induction kvs arbitrary: acc) (auto simp: keys_append_schema)

lemma keys_scan_row: "fst ` set (scan_row r acc) = row_keys r \<union> fst ` set acc"
  by (cases r) (simp_all add: keys_fold_append_schema)

lemma keys_fold_scan_row:
  "fst ` set (fold scan_row rows acc) = \<Union> (row_keys ` set rows) \<union> fst ` set acc"
  by (induction rows arbitrary: acc) (auto simp: keys_scan_row)

lemma keys_infer_properties:
  "fst ` set (infer_properties rows) = \<Union> (row_keys ` set (take 100 rows))"
proof -
  have "fst ` set (infer_properties rows) = fst ` set (fold scan_row (take 100 rows) [])"
    by (force simp: infer_properties_take)
  then show ?thesis by (simp add: keys_fold_scan_row)
qed

section \<open>The fallback of the stream name\<close>

declare str_nat.simps [simp del]

lemma stream_name_fallback:
  "qname q = Some n \<Longrightarrow> sanitize isalnum lower n = [] \<Longrightarrow>
     stream_name isalnum lower q = map ord ''query_'' @ str_int (qid q)"
  by (simp add: stream_name_def Let_def)

section \<open>Lemmas on the merger\<close>

declare merge_schemas.simps [simp del]

lemma merge_schemas_sel:
  "stype (merge_schemas ss) = TList (sort (remdups (collect_types ss)))"
  "properties (merge_schemas ss) =
     (if ''object'' \<in> set (collect_types ss) then Some (merge_object_properties [] ss) else None)"
  "items (merge_schemas ss) =
     (if ''array'' \<in> set (collect_types ss) \<and> List.map_filter items ss \<noteq> []
      then Some (merge_schemas (List.map_filter items ss)) else None)"
  "additionalProperties (merge_schemas ss) =
     (if ''object'' \<in> set (collect_types ss) then Some False else None)"
  by (simp_all add: merge_schemas.simps[of ss] Let_def)

lemma merge_property_items_step:
  "merge_property_items acc ((k, v) # ps) =
     merge_property_items
       (AList.update k (case map_of acc k of None \<Rightarrow> v | Some old \<Rightarrow> merge_schemas [old, v]) acc) ps"
  by (cases "map_of acc k") simp_all

lemma map_of_merge_property_items_other:
  "k \<notin> fst ` set ps \<Longrightarrow> map_of (merge_property_items acc ps) k = map_of acc k"
proof (induction ps arbitrary: acc)
  case Nil
  show ?case by simp
next
  case (Cons kv ps)
  obtain k' v where kv: "kv = (k', v)" by (cases kv)
  with Cons.prems have "k \<noteq> k'" and "k \<notin> fst ` set ps" by auto
  then show ?case
    unfolding kv merge_property_items_step
    by (simp add: Cons.IH update_conv')
qed

lemma map_of_merge_property_items:
  assumes "distinct (map fst ps)"
  shows "map_of (merge_property_items acc ps) k =
     (case map_of ps k of
        None \<Rightarrow> map_of acc k
      | Some v \<Rightarrow> (case map_of acc k of None \<Rightarrow> Some v | Some old \<Rightarrow> Some (merge_schemas [old, v])))"
  using assms
proof (induction ps arbitrary: acc)
  case Nil
  show ?case by simp
next
  case (Cons kv ps)
  obtain k' v where kv: "kv = (k', v)" by (cases kv)
  from Cons.prems kv have d: "distinct (map fst ps)" and n: "k' \<notin> fst ` set ps" by auto
  let ?x = "case map_of acc k' of None \<Rightarrow> v | Some old \<Rightarrow> merge_schemas [old, v]"
  show ?case
  proof (cases "k = k'")
    case True
    have "map_of (merge_property_items (AList.update k' ?x acc) ps) k' = Some ?x"
      using n by (simp add: map_of_merge_property_items_other update_conv')
    then show ?thesis
      unfolding kv merge_property_items_step using True
      by (simp split: option.splits)
  next
    case False
    then show ?thesis
      unfolding kv merge_property_items_step
      by (simp add: Cons.IH[OF d] update_conv' cong: option.case_cong)
  qed
qed

lemma merge_object_properties_append:
  "merge_object_properties acc (xs @ ys) =
     merge_object_properties (merge_object_properties acc xs) ys"
  by (induction xs arbitrary: acc) (simp_all split: option.splits)

lemma map_of_merge_object_properties_other:
  "\<forall>s \<in> set ss. k \<notin> property_names s \<Longrightarrow>
     map_of (merge_object_properties acc ss) k = map_of acc k"
proof (induction ss arbitrary: acc)
  case Nil
  show ?case by simp
next
  case (Cons s ss)
  show ?case
  proof (cases "properties s")
    case None
    with Cons show ?thesis by simp
  next
    case (Some ps)
    with Cons.prems have "k \<notin> fst ` set ps"
      by (simp add: property_names_def)
    with Cons Some show ?thesis
      by (simp add: map_of_merge_property_items_other)
  qed
qed

section \<open>Schemas built by the program are well formed\<close>

lemma sort_remdups_cong: "set xs = set ys \<Longrightarrow> sort (remdups xs) = sort (remdups ys)"
  by (metis sorted_list_of_set_sort_remdups)

lemma set_update_subset: "set (AList.update k v al) \<subseteq> insert (k, v) (set al)"
  by (induction al) auto

lemma wf_dict_Nil [simp]: "wf_dict []"
  by (simp add: wf_dict_def)

lemma wf_dict_update: "wf_dict acc \<Longrightarrow> wf_schema x \<Longrightarrow> wf_dict (AList.update k x acc)"
  using set_update_subset[of k x acc] by (auto simp: wf_dict_def distinct_update)

lemma wf_dict_lookup: "wf_dict acc \<Longrightarrow> map_of acc k = Some v \<Longrightarrow> wf_schema v"
  by (auto simp: wf_dict_def dest: map_of_SomeD)

lemma wf_schema_sel:
  "wf_schema s =
     ((case properties s of None \<Rightarrow> ''object'' \<notin> set (type_tags (stype s))
       | Some l \<Rightarrow> ''object'' \<in> set (type_tags (stype s)) \<and> wf_dict l)
      \<and> (case items s of None \<Rightarrow> True
          | Some i \<Rightarrow> ''array'' \<in> set (type_tags (stype s)) \<and> wf_schema i)
      \<and> additionalProperties s =
          (if ''object'' \<in> set (type_tags (stype s)) then Some False else None))"
  by (cases s) (simp add: wf_dict_def split: option.splits)

lemma wf_leaf: "t \<noteq> ''object'' \<Longrightarrow> wf_schema (leaf t)"
  by (simp add: leaf_def)

lemma wf_dict_fold_update:
  "wf_dict acc \<Longrightarrow> \<forall>kv \<in> set kvs. wf_schema (f (snd kv)) \<Longrightarrow>
     wf_dict (fold (\<lambda>(k, v). AList.update k (f v)) kvs acc)"
  by (induction kvs arbitrary: acc) (auto simp: wf_dict_update)

text \<open>
  On a dict, whose keys are distinct, the dict comprehension of the value typer is the
  map over the items.
\<close>

lemma fold_update_distinct:
  "distinct (map fst acc @ map fst kvs) \<Longrightarrow>
     fold (\<lambda>(k, v). AList.update k (f v)) kvs acc = acc @ map (\<lambda>(k, v). (k, f v)) kvs"
proof (induction kvs arbitrary: acc)
  case Nil
  show ?case by simp
next
  case (Cons kv kvs)
  obtain k v where kv: "kv = (k, v)" by (cases kv)
  with Cons.prems have "k \<notin> fst ` set acc" by auto
  then have u: "AList.update k (f v) acc = acc @ [(k, f v)]"
    by (induction acc) auto
  from Cons.prems kv have "distinct (map fst (acc @ [(k, f v)]) @ map fst kvs)" by simp
  then have "fold (\<lambda>(k, v). AList.update k (f v)) kvs (acc @ [(k, f v)])
      = (acc @ [(k, f v)]) @ map (\<lambda>(k, v). (k, f v)) kvs"
    by (rule Cons.IH)
  with u show ?case by (simp add: kv)
qed

lemma singer_type_for_value_dict:
  "distinct (map fst kvs) \<Longrightarrow>
     singer_type_for_value (VDict kvs) =
       Schema (TStr ''object'') (Some (map (\<lambda>(k, v). (k, singer_type_for_value v)) kvs))
         None (Some False)"
  using fold_update_distinct[of "[]" kvs singer_type_for_value] by simp

lemma wf_singer_type_for_value: "wf_schema (singer_type_for_value v)"
proof (induction v)
  case (VDict kvs)
  then have "\<forall>kv \<in> set kvs. wf_schema (singer_type_for_value (snd kv))"
    by (auto simp: snds.simps)
  then have "wf_dict (fold (\<lambda>(k, v). AList.update k (singer_type_for_value v)) kvs [])"
    by (intro wf_dict_fold_update) simp_all
  then show ?case by (simp add: wf_dict_def)
next
  case (VList xs)
  then show ?case
    by (cases xs) (auto simp: wf_leaf leaf_def)
qed (simp_all add: wf_leaf)

section \<open>Merging two schemas in either order\<close>

lemma collect_types_pair:
  "collect_types [a, b] = type_tags (stype a) @ type_tags (stype b) @ [''null'']"
  by (simp add: collect_types_def)

lemma set_collect_types_swap: "set (collect_types [a, b]) = set (collect_types [b, a])"
  by (auto simp: collect_types_pair)

lemma in_collect_types_pair:
  "tag \<in> set (collect_types [a, b]) \<longleftrightarrow>
     tag \<in> set (type_tags (stype a)) \<or> tag \<in> set (type_tags (stype b)) \<or> tag = ''null''"
  by (auto simp: collect_types_pair)

lemma abs_schema_sel:
  "abs_schema s =
     MSchema (stype s)
       (map_option (\<lambda>l k. map_option abs_schema (map_of l k)) (properties s))
       (map_option abs_schema (items s)) (additionalProperties s)"
proof (cases s)
  case (Schema t ps it ap)
  have m: "map_of (map (map_prod id abs_schema) l) = (\<lambda>k. map_option abs_schema (map_of l k))" for l
    by (induction l) auto
  from Schema show ?thesis
    by (simp add: m split: option.splits)
qed

lemma merge_property_items_Nil: "distinct (map fst ps) \<Longrightarrow> map_of (merge_property_items [] ps) = map_of ps"
  by (rule ext) (simp add: map_of_merge_property_items split: option.splits)

lemma map_of_merge_object_properties_pair:
  assumes "wf_schema a" and "wf_schema b"
  shows "map_of (merge_object_properties [] [a, b]) k =
     (case property_of a k of
        None \<Rightarrow> property_of b k
      | Some x \<Rightarrow>
          (case property_of b k of None \<Rightarrow> Some x | Some y \<Rightarrow> Some (merge_schemas [x, y])))"
proof -
  have da: "distinct (map fst pa)" if "properties a = Some pa" for pa
    using assms(1) that by (simp add: wf_schema_sel[of a] wf_dict_def)
  have db: "distinct (map fst pb)" if "properties b = Some pb" for pb
    using assms(2) that by (simp add: wf_schema_sel[of b] wf_dict_def)
  show ?thesis
    using da db
    by (cases "properties a"; cases "properties b")
      (simp_all add: property_of_def map_of_merge_property_items split: option.splits)
qed

lemma wf_property_of: "wf_schema s \<Longrightarrow> property_of s k = Some x \<Longrightarrow> wf_schema x"
  by (auto simp: property_of_def wf_schema_sel[of s] split: option.splits intro: wf_dict_lookup)

lemma merge_pair_commute:
  "wf_schema a \<Longrightarrow> wf_schema b \<Longrightarrow>
     abs_schema (merge_schemas [a, b]) = abs_schema (merge_schemas [b, a])"
proof (induction a arbitrary: b)
  case (Schema t ps it ap)
  let ?a = "Schema t ps it ap"
  have sub_p: "abs_schema (merge_schemas [x, y]) = abs_schema (merge_schemas [y, x])"
    if "ps = Some l" "map_of l k = Some x" "wf_schema y" for l k x y
  proof -
    from that(1,2) have "(k, x) \<in> set l" by (auto dest: map_of_SomeD)
    moreover from this Schema.prems(1) that(1) have "wf_schema x" by auto
    ultimately show ?thesis
      using Schema.IH(1)[of l "(k, x)" x y] that by (simp add: snds.simps)
  qed
  have sub_i: "abs_schema (merge_schemas [i, y]) = abs_schema (merge_schemas [y, i])"
    if "it = Some i" "wf_schema y" for i y
    using Schema.IH(2)[of i y] Schema.prems(1) that by simp
  have types: "set (collect_types [?a, b]) = set (collect_types [b, ?a])"
    by (rule set_collect_types_swap)
  have e1: "stype (merge_schemas [?a, b]) = stype (merge_schemas [b, ?a])"
    by (simp add: merge_schemas_sel sort_remdups_cong[OF types])
  have e4: "additionalProperties (merge_schemas [?a, b]) = additionalProperties (merge_schemas [b, ?a])"
    by (auto simp add: merge_schemas_sel in_collect_types_pair)
  have e3: "map_option abs_schema (items (merge_schemas [?a, b]))
          = map_option abs_schema (items (merge_schemas [b, ?a]))"
  proof (cases it)
    case None
    then show ?thesis
      by (cases "items b") (auto simp add: merge_schemas_sel in_collect_types_pair List.map_filter_simps)
  next
    case (Some i)
    show ?thesis
    proof (cases "items b")
      case None
      with Some show ?thesis
        by (auto simp add: merge_schemas_sel in_collect_types_pair List.map_filter_simps)
    next
      case (Some j)
      with Schema.prems(2) have "wf_schema j"
        by (simp add: wf_schema_sel[of b])
      with \<open>it = Some i\<close> Some sub_i[of i j] show ?thesis
        by (auto simp add: merge_schemas_sel in_collect_types_pair List.map_filter_simps)
    qed
  qed
  have e2: "map_option (\<lambda>l k. map_option abs_schema (map_of l k)) (properties (merge_schemas [?a, b]))
          = map_option (\<lambda>l k. map_option abs_schema (map_of l k)) (properties (merge_schemas [b, ?a]))"
  proof (cases "''object'' \<in> set (collect_types [?a, b])")
    case False
    then show ?thesis by (simp add: merge_schemas_sel types[symmetric])
  next
    case True
    have "map_option abs_schema (map_of (merge_object_properties [] [?a, b]) k)
        = map_option abs_schema (map_of (merge_object_properties [] [b, ?a]) k)" for k
    proof -
      have sw: "abs_schema (merge_schemas [x, y]) = abs_schema (merge_schemas [y, x])"
        if "property_of ?a k = Some x" "property_of b k = Some y" for x y
      proof -
        from that(1) obtain l where l: "ps = Some l" "map_of l k = Some x"
          by (cases ps) (auto simp: property_of_def)
        from that(2) Schema.prems(2) have "wf_schema y"
          by (auto intro: wf_property_of)
        with l show ?thesis by (rule sub_p)
      qed
      show ?thesis
        unfolding map_of_merge_object_properties_pair[OF Schema.prems(1) Schema.prems(2)]
          map_of_merge_object_properties_pair[OF Schema.prems(2) Schema.prems(1)]
        by (cases "property_of ?a k"; cases "property_of b k") (auto intro: sw)
    qed
    with True show ?thesis
      by (simp add: merge_schemas_sel types[symmetric])
  qed
  show ?case
    by (simp only: abs_schema_sel[of "merge_schemas [?a, b]"] abs_schema_sel[of "merge_schemas [b, ?a]"]
        e1 e2 e3 e4)
qed

section \<open>The nested example\<close>

text \<open>
  C1. The spec's nested example: for the rows \<^verbatim>\<open>[{"meta": {"x": 1}}, {"meta": {"x": 2, "y": "z"}}]\<close>
  the field \<^verbatim>\<open>meta\<close> is expected to merge to an object schema whose nested property
  \<^verbatim>\<open>y\<close> has the type list \<^verbatim>\<open>["null", "string"]\<close>. The theorem evaluates the program on
  these rows: \<^verbatim>\<open>x\<close>, seen in both rows, is merged and nullable, but \<^verbatim>\<open>y\<close>, seen once,
  keeps the schema \<^verbatim>\<open>{"type": "string"}\<close> of its value: no \<^verbatim>\<open>null\<close>, and a single tag
  instead of a list.
\<close>

theorem nested_example_keeps_leaf:
  "infer_properties
     [VDict [(''meta'', VDict [(''x'', VInt 1)])],
      VDict [(''meta'', VDict [(''x'', VInt 2), (''y'', VStr ''z'')])]]
   = [(''meta'',
       Schema (TList [''null'', ''object''])
         (Some [(''x'', Schema (TList [''integer'', ''null'']) None None None),
                (''y'', Schema (TStr ''string'') None None None)])
         None (Some False))]"
  by (simp add: infer_properties_def append_schema_def merge_schemas.simps collect_types_def
      leaf_def List.map_filter_simps)

section \<open>Rows that are not objects\<close>

text \<open>
  C2, as stated: removing a non-object row from the list of sample rows does not change
  the result. This fails for a list longer than the cap of 100 rows: the removed row made
  room for row 101. Below, the first of 101 rows is a string, rows 2 to 100 have the
  field \<^verbatim>\<open>a\<close> and row 101 has the field \<^verbatim>\<open>b\<close>; with the string in place \<^verbatim>\<open>b\<close> is
  never read, without it \<^verbatim>\<open>b\<close> is part of the result.
\<close>

theorem row_skip_counterexample:
  "\<not> is_dict (VStr ''oops'')
   \<and> infer_properties
        (VStr ''oops'' # replicate 99 (VDict [(''a'', VInt 1)]) @ [VDict [(''b'', VInt 2)]])
     \<noteq> infer_properties (replicate 99 (VDict [(''a'', VInt 1)]) @ [VDict [(''b'', VInt 2)]])"
proof -
  let ?rest = "replicate 99 (VDict [(''a'', VInt 1)]) @ [VDict [(''b'', VInt 2)]]"
  have "take 100 (VStr ''oops'' # ?rest) = VStr ''oops'' # replicate 99 (VDict [(''a'', VInt 1)])"
    by (simp add: take_Cons')
  then have "''b'' \<notin> fst ` set (infer_properties (VStr ''oops'' # ?rest))"
    by (simp add: keys_infer_properties)
  moreover have "''b'' \<in> fst ` set (infer_properties ?rest)"
    by (simp add: keys_infer_properties)
  ultimately show ?thesis by auto
qed

text \<open>
  C2, amended: for a list of at most 100 sample rows, removing a row that is not an
  object does not change the result (the same dict, with its keys in the same order).
\<close>

theorem row_skip_within_cap:
  assumes "\<not> is_dict r" and "length (xs @ r # ys) \<le> 100"
  shows "infer_properties (xs @ r # ys) = infer_properties (xs @ ys)"
proof -
  from assms(2) have "take 100 (xs @ r # ys) = xs @ r # ys" and "take 100 (xs @ ys) = xs @ ys"
    by simp_all
  moreover have "fold scan_row (xs @ r # ys) [] = fold scan_row (xs @ ys) []"
    using assms(1) by (simp add: scan_row_not_dict)
  ultimately show ?thesis
    by (simp only: infer_properties_take)
qed

theorem row_skip_within_cap_witness:
  "\<not> is_dict (VInt 7)
   \<and> length ([VDict [(''id'', VInt 1)]] @ VInt 7 # [VDict [(''id'', VNone)]]) \<le> 100
   \<and> infer_properties ([VDict [(''id'', VInt 1)]] @ VInt 7 # [VDict [(''id'', VNone)]])
     = infer_properties ([VDict [(''id'', VInt 1)]] @ [VDict [(''id'', VNone)]])"
  using row_skip_within_cap [of "VInt 7" "[VDict [(''id'', VInt 1)]]" "[VDict [(''id'', VNone)]]"]
  by simp

section \<open>Commutativity of the merge of two leaf schemas\<close>

text \<open>
  The two orders may list the properties in different orders (a dict keeps the order of
  insertion), which Python's \<^verbatim>\<open>==\<close> on dicts ignores; so the results are compared as
  \<open>abs_schema\<close> reads them.
\<close>

lemma merge_key_order_differs:
  "merge_schemas [singer_type_for_value (VDict [(''x'', VInt 1)]),
                  singer_type_for_value (VDict [(''y'', VInt 2)])]
   \<noteq> merge_schemas [singer_type_for_value (VDict [(''y'', VInt 2)]),
                    singer_type_for_value (VDict [(''x'', VInt 1)])]"
  by (simp add: merge_schemas.simps collect_types_def leaf_def List.map_filter_simps)

text \<open>
  C3. For every two leaf schemas \<open>a\<close> and \<open>b\<close> (the schemas of two values), merging
  \<open>[a, b]\<close> and merging \<open>[b, a]\<close> give the same schema: the same type list, the same
  mapping from property names to schemas, the same items schema, at every level.
\<close>

theorem merge_commutative:
  "abs_schema (merge_schemas [singer_type_for_value va, singer_type_for_value vb])
   = abs_schema (merge_schemas [singer_type_for_value vb, singer_type_for_value va])"
  by (rule merge_pair_commute) (rule wf_singer_type_for_value)+

section \<open>Merging a merged schema with itself\<close>

text \<open>
  C4. For two leaf schemas \<open>a\<close> and \<open>b\<close>, merging \<open>merge [a, b]\<close> with itself should give
  \<open>merge [a, b]\<close> again, up to \<^verbatim>\<open>null\<close> in the type lists. The theorem evaluates the
  program on the leaf schemas of \<^verbatim>\<open>{"x": 1}\<close> and \<^verbatim>\<open>{"x": 2, "y": "z"}\<close>: in
  \<open>merge [a, b]\<close> the property \<^verbatim>\<open>y\<close>, seen once, has kept the leaf schema
  \<^verbatim>\<open>{"type": "string"}\<close>; in the re-merge it is \<^verbatim>\<open>{"type": ["null", "string"]}\<close>. The
  two results differ, and still differ when \<^verbatim>\<open>null\<close> is removed from every type list:
  a single tag stands against a list.
\<close>

theorem remerge_changes_nested_property:
  "merge_schemas [singer_type_for_value (VDict [(''x'', VInt 1)]),
                  singer_type_for_value (VDict [(''x'', VInt 2), (''y'', VStr ''z'')])]
   = Schema (TList [''null'', ''object''])
       (Some [(''x'', Schema (TList [''integer'', ''null'']) None None None),
              (''y'', Schema (TStr ''string'') None None None)])
       None (Some False)
   \<and> merge_schemas
       [merge_schemas [singer_type_for_value (VDict [(''x'', VInt 1)]),
                       singer_type_for_value (VDict [(''x'', VInt 2), (''y'', VStr ''z'')])],
        merge_schemas [singer_type_for_value (VDict [(''x'', VInt 1)]),
                       singer_type_for_value (VDict [(''x'', VInt 2), (''y'', VStr ''z'')])]]
   = Schema (TList [''null'', ''object''])
       (Some [(''x'', Schema (TList [''integer'', ''null'']) None None None),
              (''y'', Schema (TList [''null'', ''string'']) None None None)])
       None (Some False)
   \<and> strip_null
       (merge_schemas
         [merge_schemas [singer_type_for_value (VDict [(''x'', VInt 1)]),
                         singer_type_for_value (VDict [(''x'', VInt 2), (''y'', VStr ''z'')])],
          merge_schemas [singer_type_for_value (VDict [(''x'', VInt 1)]),
                         singer_type_for_value (VDict [(''x'', VInt 2), (''y'', VStr ''z'')])]])
   \<noteq> strip_null
       (merge_schemas [singer_type_for_value (VDict [(''x'', VInt 1)]),
                       singer_type_for_value (VDict [(''x'', VInt 2), (''y'', VStr ''z'')])])"
  by (simp add: merge_schemas.simps collect_types_def leaf_def List.map_filter_simps)

section \<open>Nullability of a merged schema\<close>

text \<open>
  C5. For every non-empty sequence of schemas, the \<^verbatim>\<open>"type"\<close> of the merged schema is a
  list that contains \<^verbatim>\<open>"null"\<close>, is sorted and has no duplicates.
\<close>

theorem merged_type_nullable_sorted:
  assumes "schemas \<noteq> []"
  shows "\<exists>ts. stype (merge_schemas schemas) = TList ts
           \<and> ''null'' \<in> set ts \<and> sorted ts \<and> distinct ts"
proof -
  let ?ts = "sort (remdups (collect_types schemas))"
  have "stype (merge_schemas schemas) = TList ?ts"
    by (simp add: merge_schemas_sel)
  moreover have "''null'' \<in> set ?ts"
    by (simp add: collect_types_def)
  moreover have "sorted ?ts" and "distinct ?ts"
    by simp_all
  ultimately show ?thesis by blast
qed

theorem merged_type_nullable_sorted_witness:
  "[leaf ''string'', leaf ''integer''] \<noteq> []
   \<and> stype (merge_schemas [leaf ''string'', leaf ''integer''])
       = TList [''integer'', ''null'', ''string'']
   \<and> ''null'' \<in> set [''integer'', ''null'', ''string'']
   \<and> sorted [''integer'', ''null'', ''string'']
   \<and> distinct [''integer'', ''null'', ''string'']"
proof -
  have "stype (merge_schemas [leaf ''string'', leaf ''integer''])
      = TList [''integer'', ''null'', ''string'']"
    by (simp add: merge_schemas_sel collect_types_def leaf_def)
  then show ?thesis
    using merged_type_nullable_sorted [of "[leaf ''string'', leaf ''integer'']"] by auto
qed

section \<open>Arrays with a leading null\<close>

text \<open>
  C6. A non-empty array whose first element is \<^verbatim>\<open>null\<close> is typed as an array of arrays
  of strings, whatever its later elements are.
\<close>

theorem leading_null_array:
  "singer_type_for_value (VList (VNone # rest)) =
     Schema (TStr ''array'') None
       (Some (Schema (TStr ''array'') None
                (Some (Schema (TStr ''string'') None None None)) None))
       None"
  by (simp add: leaf_def)

section \<open>The sample cap\<close>

text \<open>
  C7. Two row sequences that agree on their first 100 rows have the same inferred
  properties, whatever follows: only \<open>take 100\<close> of the rows is read. This covers the
  sequences of length at least 100 of the claim, and 150 rows whose last 50 bring new
  fields.
\<close>

theorem sample_cap:
  assumes "take 100 rows = take 100 rows'"
  shows "infer_properties rows = infer_properties rows'"
  using assms by (simp add: infer_properties_take)

theorem sample_cap_witness:
  "take 100 (replicate 100 (VDict [(''a'', VInt 1)]) @ replicate 50 (VDict [(''b'', VStr ''s'')]))
     = take 100 (replicate 100 (VDict [(''a'', VInt 1)]))
   \<and> infer_properties
        (replicate 100 (VDict [(''a'', VInt 1)]) @ replicate 50 (VDict [(''b'', VStr ''s'')]))
     = infer_properties (replicate 100 (VDict [(''a'', VInt 1)]))"
  using sample_cap [of "replicate 100 (VDict [(''a'', VInt 1)]) @ replicate 50 (VDict [(''b'', VStr ''s'')])"
      "replicate 100 (VDict [(''a'', VInt 1)])"]
  by simp

section \<open>Stream names\<close>

text \<open>
  C8. The stream name of every query should consist of lowercase alphanumeric characters
  and underscores only. The program removes the characters that are neither
  alphanumeric nor an underscore first and lowercases afterwards, and lowercasing can
  bring in a character that the filter would have removed: \<^verbatim>\<open>str.lower\<close> maps the
  letter U+0130 of the name \<^verbatim>\<open>"\u0130stanbul"\<close> to \<^verbatim>\<open>i\<close> followed by the combining dot
  U+0307, which is not alphanumeric. The theorem evaluates the program on the query with
  id 7 and this name, from these facts of the Unicode tables: the stream name is
  \<^verbatim>\<open>i\<close>, U+0307, \<^verbatim>\<open>stanbul\<close>.
\<close>

theorem stream_name_keeps_combining_mark:
  assumes "isalnum 304" and "list_all isalnum (map ord ''stanbul'')"
    and "lower (304 # map ord ''stanbul'') = ord CHR ''i'' # 775 # map ord ''stanbul''"
    and "\<not> isalnum 775"
  shows "stream_name isalnum lower \<lparr>qid = 7, qname = Some (304 # map ord ''stanbul'')\<rparr>
           = ord CHR ''i'' # 775 # map ord ''stanbul''
       \<and> \<not> list_all (name_char isalnum lower)
             (stream_name isalnum lower \<lparr>qid = 7, qname = Some (304 # map ord ''stanbul'')\<rparr>)"
proof -
  let ?name = "304 # map ord ''stanbul''"
  have "replace_char (ord CHR ''-'') (ord CHR ''_'')
          (replace_char (ord CHR '' '') (ord CHR ''_'') ?name) = ?name"
    by (simp add: replace_char_def ord_def)
  moreover have "filter (\<lambda>c. isalnum c \<or> c = ord CHR ''_'') ?name = ?name"
    using assms(1,2) by (simp add: list_all_iff)
  ultimately have "sanitize isalnum lower ?name = ord CHR ''i'' # 775 # map ord ''stanbul''"
    using assms(3) by (simp only: sanitize_def Let_def)
  then have n: "stream_name isalnum lower \<lparr>qid = 7, qname = Some ?name\<rparr>
      = ord CHR ''i'' # 775 # map ord ''stanbul''"
    by (simp add: stream_name_def Let_def)
  have "\<not> name_char isalnum lower 775"
    using assms(4) by (simp add: name_char_def ord_def)
  with n show ?thesis by simp
qed

theorem stream_name_keeps_combining_mark_witness:
  "excerpt_isalnum 304
   \<and> list_all excerpt_isalnum (map ord ''stanbul'')
   \<and> excerpt_lower (304 # map ord ''stanbul'') = ord CHR ''i'' # 775 # map ord ''stanbul''
   \<and> \<not> excerpt_isalnum 775
   \<and> stream_name excerpt_isalnum excerpt_lower
        \<lparr>qid = 7, qname = Some (304 # map ord ''stanbul'')\<rparr>
       = ord CHR ''i'' # 775 # map ord ''stanbul''
   \<and> \<not> list_all (name_char excerpt_isalnum excerpt_lower)
         (stream_name excerpt_isalnum excerpt_lower
            \<lparr>qid = 7, qname = Some (304 # map ord ''stanbul'')\<rparr>)"
proof -
  have a: "excerpt_isalnum 304" "list_all excerpt_isalnum (map ord ''stanbul'')"
    "\<not> excerpt_isalnum 775"
    by (simp_all add: excerpt_isalnum_def ord_def)
  have l: "excerpt_lower (304 # map ord ''stanbul'') = ord CHR ''i'' # 775 # map ord ''stanbul''"
    by (simp add: excerpt_lower_def ord_def)
  note t = stream_name_keeps_combining_mark [of excerpt_isalnum excerpt_lower, OF a(1) a(2) l a(3)]
  from a l t show ?thesis by blast
qed

section \<open>A property seen once\<close>

text \<open>
  C9. The properties are merged when \<^verbatim>\<open>object\<close> is among the collected type tags (as it
  is whenever one of the inputs is an object schema). Then, when a property name \<open>k\<close>
  occurs in the properties of exactly one input schema \<open>s\<close>, at any position of the input
  sequence, the entry of the merged schema for \<open>k\<close> is the sub-schema \<open>v\<close> that \<open>s\<close> has
  for \<open>k\<close>, itself: it is not passed through the merge, so no \<^verbatim>\<open>null\<close> is added and its
  type is left as it was, a single tag for a leaf schema.
\<close>

theorem single_occurrence_property_copied:
  assumes "properties s = Some ps" and "distinct (map fst ps)" and "map_of ps k = Some v"
    and "''object'' \<in> set (collect_types (xs @ s # ys))"
    and "\<forall>t \<in> set (xs @ ys). k \<notin> property_names t"
  shows "property_of (merge_schemas (xs @ s # ys)) k = Some v"
proof -
  let ?acc1 = "merge_object_properties [] xs"
  let ?acc2 = "merge_property_items ?acc1 ps"
  have "map_of ?acc1 k = None"
    using assms(5) by (simp add: map_of_merge_object_properties_other)
  then have "map_of ?acc2 k = Some v"
    using assms(2,3) by (simp add: map_of_merge_property_items)
  moreover have "merge_object_properties [] (xs @ s # ys) = merge_object_properties ?acc2 ys"
    using assms(1) by (simp add: merge_object_properties_append)
  ultimately have "map_of (merge_object_properties [] (xs @ s # ys)) k = Some v"
    using assms(5) by (simp add: map_of_merge_object_properties_other)
  with assms(4) show ?thesis
    by (simp add: property_of_def merge_schemas_sel)
qed

theorem single_occurrence_property_copied_witness:
  "properties (Schema (TStr ''object'') (Some [(''x'', leaf ''integer''), (''y'', leaf ''string'')])
        None (Some False))
     = Some [(''x'', leaf ''integer''), (''y'', leaf ''string'')]
   \<and> distinct (map fst [(''x'', leaf ''integer''), (''y'', leaf ''string'')])
   \<and> map_of [(''x'', leaf ''integer''), (''y'', leaf ''string'')] ''y'' = Some (leaf ''string'')
   \<and> ''object'' \<in> set (collect_types
         ([Schema (TStr ''object'') (Some [(''x'', leaf ''integer'')]) None (Some False)]
          @ Schema (TStr ''object'') (Some [(''x'', leaf ''integer''), (''y'', leaf ''string'')])
              None (Some False) # []))
   \<and> ''y'' \<notin> property_names (Schema (TStr ''object'') (Some [(''x'', leaf ''integer'')])
         None (Some False))
   \<and> property_of
        (merge_schemas
          [Schema (TStr ''object'') (Some [(''x'', leaf ''integer'')]) None (Some False),
           Schema (TStr ''object'') (Some [(''x'', leaf ''integer''), (''y'', leaf ''string'')])
             None (Some False)]) ''y''
       = Some (leaf ''string'')"
  using single_occurrence_property_copied
    [of "Schema (TStr ''object'') (Some [(''x'', leaf ''integer''), (''y'', leaf ''string'')])
           None (Some False)"
        "[(''x'', leaf ''integer''), (''y'', leaf ''string'')]" "''y''" "leaf ''string''"
        "[Schema (TStr ''object'') (Some [(''x'', leaf ''integer'')]) None (Some False)]" "[]"]
  by (simp add: property_names_def collect_types_def)

section \<open>Merging no schema\<close>

text \<open>
  C10. \<^verbatim>\<open>_merge_schemas([])\<close> does not fail: it is the dict \<^verbatim>\<open>{"type": ["null"]}\<close>,
  without \<^verbatim>\<open>properties\<close>, \<^verbatim>\<open>items\<close> or \<^verbatim>\<open>additionalProperties\<close>.
\<close>

theorem merge_empty:
  "merge_schemas [] = Schema (TList [''null'']) None None None"
  by (simp add: merge_schemas.simps collect_types_def)


end
